theory Spec2Isabelle
  imports Complex_Main
begin

section \<open>Data model\<close>

text \<open>
  The table builder of \<^verbatim>\<open>src/index.ts\<close>. A JavaScript \<^verbatim>\<open>number\<close> that holds a
  coordinate, a confidence or a scale is modelled by a real (finite values only: NaN and
  the infinities are not represented, and \<^verbatim>\<open>/\<close> is exact division). A column index,
  the result of \<^verbatim>\<open>IntRangeSet.getIndex\<close>, is an integer, and \<^verbatim>\<open>null\<close> is \<open>None\<close>.
  A JavaScript string is a \<open>string\<close>, one \<open>char\<close> for each code unit.
\<close>

type_synonym number = real

record Bbox =
  x0 :: number
  y0 :: number
  x1 :: number
  y1 :: number

text \<open>The fields of tesseract's \<^verbatim>\<open>Symbol\<close>, \<^verbatim>\<open>Word\<close>, \<^verbatim>\<open>Line\<close> and \<^verbatim>\<open>Page\<close> that
  \<^verbatim>\<open>processOcrData\<close> reads.\<close>

record Symbol =
  symbol_bbox :: Bbox

record Word =
  word_text :: string
  confidence :: number
  bbox :: Bbox

record Line =
  words :: "Word list"

record Page =
  symbols :: "Symbol list"
  lines :: "Line list"

type_synonym Row = "string list"

type_synonym Table = "Row list"

record ProcessingOptions =
  scale :: number
  delimiter :: string
  columnThreshold :: number
  confidenceThreshold :: number
  lowConfidenceMarker :: string

record OcrProcessingResult =
  table :: Table
  lowConfidenceBoxes :: "Bbox list"

text \<open>The object literal \<^verbatim>\<open>{ start, end }\<close> pushed onto \<^verbatim>\<open>columnRanges\<close>.\<close>

record IntRange =
  range_start :: number
  range_end :: number

text \<open>
  The class \<^verbatim>\<open>IntRangeSet\<close> is imported from \<^verbatim>\<open>./intrangeset\<close>. The table builder
  constructs one set from the column ranges and a threshold and then only calls
  \<^verbatim>\<open>getIndex\<close> on it, so the class enters \<open>processOcrData\<close> as a parameter: the function
  that maps the constructor's two arguments and a queried coordinate to the result of
  \<^verbatim>\<open>getIndex\<close>.
\<close>

type_synonym IntRangeSet = "IntRange list \<Rightarrow> number \<Rightarrow> number \<Rightarrow> int option"

section \<open>processOcrData\<close>

text \<open>The variables that the loop over the words of one line updates;
  \<open>boxes\<close> is \<^verbatim>\<open>lowConfidenceBoxes\<close>, which lives across lines.\<close>

record RowState =
  boxes :: "Bbox list"
  row :: Row
  cellContents :: "string option"
  cellConfidence :: number
  currentColumn :: "int option"

text \<open>\<^verbatim>\<open>for (let k = (thisWordColumn - currentColumn) - 1; k > 0; k -= 1) row.push('')\<close>\<close>

function pushBlanks :: "int \<Rightarrow> Row \<Rightarrow> Row" where
  "pushBlanks k r = (if k > 0 then pushBlanks (k - 1) (r @ ['''']) else r)"
  by pat_completeness auto
termination
  by (relation "measure (\<lambda>(k, r). nat k)") auto

declare pushBlanks.simps [simp del]

text \<open>The body of the loop over \<^verbatim>\<open>line.words\<close>, for one word.\<close>

definition processWord ::
  "(number \<Rightarrow> int option) \<Rightarrow> ProcessingOptions \<Rightarrow> Word \<Rightarrow> RowState \<Rightarrow> RowState" where
  "processWord getIndex opts word s =
    (let s1 = (if confidence word < confidenceThreshold opts
               then s\<lparr>boxes := boxes s @
                      [\<lparr>x0 = x0 (bbox word) / scale opts,
                        y0 = y0 (bbox word) / scale opts,
                        x1 = x1 (bbox word) / scale opts,
                        y1 = y1 (bbox word) / scale opts\<rparr>]\<rparr>
               else s);
         thisWordColumn = getIndex (x0 (bbox word))
     in if thisWordColumn = currentColumn s1
        then s1\<lparr>cellConfidence := min (cellConfidence s1) (confidence word),
                cellContents :=
                  (case cellContents s1 of
                     None \<Rightarrow> Some (word_text word)
                   | Some c \<Rightarrow> Some (c @ '' '' @ word_text word))\<rparr>
        else
          (let row1 = (case cellContents s1 of
                         None \<Rightarrow> row s1
                       | Some c \<Rightarrow>
                           row s1 @ [if cellConfidence s1 < confidenceThreshold opts
                                     then c @ lowConfidenceMarker opts else c]);
               cur = (case currentColumn s1 of None \<Rightarrow> 0 | Some k \<Rightarrow> k);
               row2 = (case thisWordColumn of
                         None \<Rightarrow> row1
                       | Some col \<Rightarrow> pushBlanks ((col - cur) - 1) row1)
           in s1\<lparr>row := row2,
                 cellContents := Some (word_text word),
                 cellConfidence := confidence word,
                 currentColumn := thisWordColumn\<rparr>))"

text \<open>The loop over \<^verbatim>\<open>line.words\<close>.\<close>

fun wordLoop ::
  "(number \<Rightarrow> int option) \<Rightarrow> ProcessingOptions \<Rightarrow> Word list \<Rightarrow> RowState \<Rightarrow> RowState" where
  "wordLoop getIndex opts [] s = s"
| "wordLoop getIndex opts (word # rest) s =
     wordLoop getIndex opts rest (processWord getIndex opts word s)"

text \<open>After the loop: "Add the contents of the last cell to the row".\<close>

definition closeRow :: "ProcessingOptions \<Rightarrow> RowState \<Rightarrow> Row" where
  "closeRow opts s =
    (case cellContents s of
       None \<Rightarrow> row s
     | Some c \<Rightarrow>
         row s @ [if cellConfidence s < confidenceThreshold opts
                  then c @ lowConfidenceMarker opts else c])"

text \<open>The body of the loop over \<^verbatim>\<open>page.lines\<close>: the state is the table and the
  low-confidence boxes collected so far.\<close>

definition processLine ::
  "(number \<Rightarrow> int option) \<Rightarrow> ProcessingOptions \<Rightarrow> Line \<Rightarrow> Table \<times> Bbox list \<Rightarrow> Table \<times> Bbox list" where
  "processLine getIndex opts line acc =
    (let s = wordLoop getIndex opts (words line)
               \<lparr>boxes = snd acc, row = [], cellContents = None,
                cellConfidence = 100, currentColumn = None\<rparr>
     in (fst acc @ [closeRow opts s], boxes s))"

fun lineLoop ::
  "(number \<Rightarrow> int option) \<Rightarrow> ProcessingOptions \<Rightarrow> Line list \<Rightarrow> Table \<times> Bbox list \<Rightarrow> Table \<times> Bbox list" where
  "lineLoop getIndex opts [] acc = acc"
| "lineLoop getIndex opts (line # rest) acc =
     lineLoop getIndex opts rest (processLine getIndex opts line acc)"

text \<open>"Determine column positions": one range for each symbol, in order.\<close>

fun symbolLoop :: "Symbol list \<Rightarrow> IntRange list \<Rightarrow> IntRange list" where
  "symbolLoop [] columnRanges = columnRanges"
| "symbolLoop (symbol # rest) columnRanges =
     symbolLoop rest
       (columnRanges @ [\<lparr>range_start = x0 (symbol_bbox symbol),
                         range_end = x1 (symbol_bbox symbol)\<rparr>])"

definition processOcrData ::
  "IntRangeSet \<Rightarrow> Page \<Rightarrow> ProcessingOptions \<Rightarrow> OcrProcessingResult" where
  "processOcrData newIntRangeSet page processingOptions =
    (let columnRanges = symbolLoop (symbols page) [];
         columnRangeSet = newIntRangeSet columnRanges
                            (columnThreshold processingOptions * scale processingOptions);
         res = lineLoop columnRangeSet processingOptions (lines page) ([], [])
     in \<lparr>table = fst res, lowConfidenceBoxes = snd res\<rparr>)"

section \<open>Text rendering in AppRequest.start\<close>

text \<open>
  The part of \<^verbatim>\<open>AppRequest.start\<close> that turns the table into the text of the textarea
  (the loops after \<^verbatim>\<open>let text = ''\<close>). The state is \<^verbatim>\<open>text\<close> and
  \<^verbatim>\<open>lengthOfLongestWord\<close>; \<^verbatim>\<open>text.slice(0, -1)\<close> drops the last code unit of the
  whole text (and leaves an empty text empty), which is \<open>butlast\<close>.
\<close>

fun cellLoop :: "string \<Rightarrow> Row \<Rightarrow> string \<times> nat \<Rightarrow> string \<times> nat" where
  "cellLoop delim [] st = st"
| "cellLoop delim (cell # rest) st =
     cellLoop delim rest (fst st @ cell @ delim, max (length cell) (snd st))"

definition renderRow :: "string \<Rightarrow> Row \<Rightarrow> string \<times> nat \<Rightarrow> string \<times> nat" where
  "renderRow delim r st =
    (let st1 = cellLoop delim r st;
         text1 = (if length r \<ge> 1 then butlast (fst st1) else fst st1)
     in (text1 @ [CHR 0x0A], snd st1))"

fun rowLoop :: "string \<Rightarrow> Table \<Rightarrow> string \<times> nat \<Rightarrow> string \<times> nat" where
  "rowLoop delim [] st = st"
| "rowLoop delim (r # rest) st = rowLoop delim rest (renderRow delim r st)"

definition renderText :: "Table \<Rightarrow> string \<Rightarrow> string" where
  "renderText tbl delim = fst (rowLoop delim tbl ('''', 1))"

text \<open>
  The delimiter comes from \<^verbatim>\<open>getProcessingOptions\<close>, which is the only place that makes
  one: \<^verbatim>\<open>btnTab.checked ? '\t' : ','\<close>. \<^verbatim>\<open>AppRequest.start\<close> is called with these options
  only, and the file exports nothing.
\<close>

definition formDelimiter :: "bool \<Rightarrow> string" where
  "formDelimiter btnTabChecked = (if btnTabChecked then [CHR 0x09] else '','')"

section \<open>The cluster set, from the specification\<close>

text \<open>
  The class \<^verbatim>\<open>IntRangeSet\<close> of \<^verbatim>\<open>./intrangeset\<close> is not among the source files. The
  definitions of this section model its constructor and its \<^verbatim>\<open>getIndex\<close> from section 4.1
  of the specification ("Cluster Set") and the first sentence of its section 7.
\<close>

text \<open>
  Modelled from the spec: the scan of the constructor of \<^verbatim>\<open>IntRangeSet\<close> over the sorted
  intervals, with a running cluster. An interval whose start is at most \<open>threshold\<close>
  beyond the running end is merged in (the end becomes the larger of the two ends); any
  other interval closes the running cluster and starts the next one; the last running
  cluster is closed at the end.
\<close>

fun coalesce :: "number \<Rightarrow> IntRange \<Rightarrow> IntRange list \<Rightarrow> IntRange list" where
  "coalesce threshold cur [] = [cur]"
| "coalesce threshold cur (i # rest) =
     (if range_start i - range_end cur \<le> threshold
      then coalesce threshold (cur\<lparr>range_end := max (range_end cur) (range_end i)\<rparr>) rest
      else cur # coalesce threshold i rest)"

text \<open>
  Modelled from the spec: the constructor of \<^verbatim>\<open>IntRangeSet\<close>. The intervals are sorted
  by their start, ties in their original order, and scanned; no interval gives no cluster.
\<close>

definition clusters :: "IntRange list \<Rightarrow> number \<Rightarrow> IntRange list" where
  "clusters intervals threshold =
    (case sort_key range_start intervals of
       [] \<Rightarrow> []
     | i # rest \<Rightarrow> coalesce threshold i rest)"

text \<open>
  Modelled from the spec: \<^verbatim>\<open>getIndex\<close> of \<^verbatim>\<open>IntRangeSet\<close> (the specification's
  \<^verbatim>\<open>indexOf\<close>) on the clusters. It is the index of the cluster that contains the
  point; index 0 for a point before the first cluster, the last index for a point after the last one, the nearer of the two
  neighbours (by distance to their boundaries) for a point in a gap, and index 0 when there
  is no cluster at all. The specification asks for a binary search; on the sorted, disjoint
  clusters that construction yields, this scan from the left returns the same index. Where
  the specification leaves the choice open (a point at equal distance from both neighbours)
  the lower index is taken.
\<close>

fun indexOf :: "IntRange list \<Rightarrow> number \<Rightarrow> nat" where
  "indexOf [] point = 0"
| "indexOf [c] point = 0"
| "indexOf (c # d # rest) point =
     (if point \<le> range_end c then 0
      else if point < range_start d
           then (if point - range_end c \<le> range_start d - point then 0 else 1)
           else Suc (indexOf (d # rest) point))"

text \<open>
  Modelled from the spec: the class \<^verbatim>\<open>IntRangeSet\<close> as a value for the parameter of
  \<open>processOcrData\<close>. The specification's lookup has no "not found" outcome, so it never
  answers \<open>None\<close>.
\<close>

definition specIntRangeSet :: IntRangeSet where
  "specIntRangeSet intervals threshold point =
     Some (int (indexOf (clusters intervals threshold) point))"

section \<open>Describing rows\<close>

text \<open>The lookup function that \<open>processOcrData\<close> uses for every word of a page:
  \<^verbatim>\<open>columnRangeSet.getIndex\<close>.\<close>

definition columnLookup :: "IntRangeSet \<Rightarrow> Page \<Rightarrow> ProcessingOptions \<Rightarrow> number \<Rightarrow> int option" where
  "columnLookup newIntRangeSet page opts =
     newIntRangeSet (symbolLoop (symbols page) []) (columnThreshold opts * scale opts)"

text \<open>The row that one iteration of the loop over the lines builds from the words of
  its line.\<close>

definition rowOfWords :: "(number \<Rightarrow> int option) \<Rightarrow> ProcessingOptions \<Rightarrow> Word list \<Rightarrow> Row" where
  "rowOfWords getIndex opts ws =
     closeRow opts (wordLoop getIndex opts ws
       \<lparr>boxes = [], row = [], cellContents = None, cellConfidence = 100, currentColumn = None\<rparr>)"

text \<open>All words of a page, line by line.\<close>

definition pageWords :: "Page \<Rightarrow> Word list" where
  "pageWords page = concat (map words (lines page))"

text \<open>The texts of some words, joined by single spaces.\<close>

fun joinWords :: "Word list \<Rightarrow> string" where
  "joinWords [] = ''''"
| "joinWords [w] = word_text w"
| "joinWords (w # v # ws) = word_text w @ '' '' @ joinWords (v # ws)"

text \<open>
  The words that go into one cell: the words of a line split into maximal runs of
  consecutive words with the same column lookup. \<open>cellRunsFrom\<close> carries the run that is
  still open.
\<close>

fun cellRunsFrom :: "(number \<Rightarrow> int option) \<Rightarrow> Word list \<Rightarrow> Word list \<Rightarrow> Word list list" where
  "cellRunsFrom getIndex r [] = [r]"
| "cellRunsFrom getIndex r (w # ws) =
     (if getIndex (x0 (bbox w)) = getIndex (x0 (bbox (hd r)))
      then cellRunsFrom getIndex (r @ [w]) ws
      else r # cellRunsFrom getIndex [w] ws)"

definition cellRuns :: "(number \<Rightarrow> int option) \<Rightarrow> Word list \<Rightarrow> Word list list" where
  "cellRuns getIndex ws =
     (case ws of [] \<Rightarrow> [] | w # rest \<Rightarrow> cellRunsFrom getIndex [w] rest)"

text \<open>The number of empty cells in front of a cell of column \<open>col\<close> that follows a cell
  of column \<open>prev\<close>, and the numbers for the runs of a line.\<close>

definition gapBefore :: "int option \<Rightarrow> int option \<Rightarrow> nat" where
  "gapBefore prev col =
     (case col of
        None \<Rightarrow> 0
      | Some c \<Rightarrow> nat (c - (case prev of None \<Rightarrow> 0 | Some p \<Rightarrow> p) - 1))"

fun cellGaps :: "(number \<Rightarrow> int option) \<Rightarrow> int option \<Rightarrow> Word list list \<Rightarrow> nat list" where
  "cellGaps getIndex prev [] = []"
| "cellGaps getIndex prev (r # rs) =
     gapBefore prev (getIndex (x0 (bbox (hd r))))
       # cellGaps getIndex (getIndex (x0 (bbox (hd r)))) rs"

text \<open>A row made of cells, each after its number of empty cells.\<close>

definition layout :: "nat list \<Rightarrow> string list \<Rightarrow> Row" where
  "layout gaps cells = concat (map2 (\<lambda>k c. replicate k '''' @ [c]) gaps cells)"

text \<open>The box that \<open>processWord\<close> appends for a word of low confidence.\<close>

definition boxOf :: "ProcessingOptions \<Rightarrow> Word \<Rightarrow> Bbox" where
  "boxOf opts w = \<lparr>x0 = x0 (bbox w) / scale opts,
                   y0 = y0 (bbox w) / scale opts,
                   x1 = x1 (bbox w) / scale opts,
                   y1 = y1 (bbox w) / scale opts\<rparr>"

text \<open>The text of the cell that holds the words \<open>r\<close>: their texts joined by spaces,
  followed by the marker when the least confidence among them is below the threshold.\<close>

definition cellText :: "ProcessingOptions \<Rightarrow> Word list \<Rightarrow> string" where
  "cellText opts r =
     joinWords r @ (if Min (confidence ` set r) < confidenceThreshold opts
                    then lowConfidenceMarker opts else '''')"

text \<open>The cells of a row joined by the delimiter: what the rendering of one row is meant
  to be, before its line break.\<close>

fun joinCells :: "string \<Rightarrow> Row \<Rightarrow> string" where
  "joinCells delim [] = ''''"
| "joinCells delim [c] = c"
| "joinCells delim (c # e # r) = c @ delim @ joinCells delim (e # r)"

section \<open>Example data\<close>

text \<open>The options that the form starts with (\<^verbatim>\<open>DEFAULTS\<close>, tab as delimiter), and a page
  at scale 3 with four symbols, a line of three words and a line without words. The first
  two symbols are 2 pixels apart and the others 80 and more, so with the threshold
  \<open>5 * 3\<close> they form three columns.\<close>

definition demoOptions :: ProcessingOptions where
  "demoOptions = \<lparr>scale = 3, delimiter = [CHR 0x09], columnThreshold = 5,
                   confidenceThreshold = 90, lowConfidenceMarker = '' (?)''\<rparr>"

definition wordA :: Word where
  "wordA = \<lparr>word_text = ''a'', confidence = 50, bbox = \<lparr>x0 = 0, y0 = 0, x1 = 10, y1 = 30\<rparr>\<rparr>"

definition wordB :: Word where
  "wordB = \<lparr>word_text = ''b'', confidence = 95, bbox = \<lparr>x0 = 12, y0 = 0, x1 = 20, y1 = 30\<rparr>\<rparr>"

definition wordC :: Word where
  "wordC = \<lparr>word_text = ''c'', confidence = 95, bbox = \<lparr>x0 = 200, y0 = 0, x1 = 210, y1 = 30\<rparr>\<rparr>"

definition demoPage :: Page where
  "demoPage =
    \<lparr>symbols =
       [\<lparr>symbol_bbox = \<lparr>x0 = 0, y0 = 0, x1 = 10, y1 = 30\<rparr>\<rparr>,
        \<lparr>symbol_bbox = \<lparr>x0 = 12, y0 = 0, x1 = 20, y1 = 30\<rparr>\<rparr>,
        \<lparr>symbol_bbox = \<lparr>x0 = 100, y0 = 0, x1 = 110, y1 = 30\<rparr>\<rparr>,
        \<lparr>symbol_bbox = \<lparr>x0 = 200, y0 = 0, x1 = 210, y1 = 30\<rparr>\<rparr>],
     lines = [\<lparr>words = [wordA, wordB, wordC]\<rparr>, \<lparr>words = []\<rparr>]\<rparr>"

text \<open>A page without symbols whose only line holds the one word \<open>wordA\<close>.\<close>

definition barePage :: Page where
  "barePage = \<lparr>symbols = [], lines = [\<lparr>words = [wordA]\<rparr>]\<rparr>"

text \<open>A state of the word loop in which the cell \<open>''a b''\<close> of column 0 is open.\<close>

definition openCellAB :: RowState where
  "openCellAB = \<lparr>boxes = [], row = [], cellContents = Some ''a b'', cellConfidence = 50,
                  currentColumn = Some 0\<rparr>"

section \<open>Lemmas about the loops\<close>

text \<open>The loop that pushes empty cells pushes \<open>nat k\<close> of them.\<close>

lemma pushBlanks_replicate: "pushBlanks k r = r @ replicate (nat k) ''''"
proof (induction k r rule: pushBlanks.induct)
  case (1 k r)
  show ?case
  proof (cases "k > 0")
    case True
    then have "nat k = Suc (nat (k - 1))" by simp
    with 1 True show ?thesis
      by (subst pushBlanks.simps) (simp add: replicate_append_same)
  next
    case False
    then show ?thesis by (subst pushBlanks.simps) simp
  qed
qed

text \<open>The boxes collected so far pass through the word loop untouched, and the row does
  not depend on them; so the table is built line by line and the boxes word by word.\<close>

lemma processWord_boxes:
  "processWord g opts w (s\<lparr>boxes := b\<rparr>) =
     (processWord g opts w s)\<lparr>boxes := b @ (if confidence w < confidenceThreshold opts then [boxOf opts w] else [])\<rparr>"
  by (simp add: processWord_def Let_def boxOf_def split: option.splits)

lemma wordLoop_boxes:
  "wordLoop g opts ws (s\<lparr>boxes := b\<rparr>) =
     (wordLoop g opts ws s)\<lparr>boxes := b @ map (boxOf opts) (filter (\<lambda>w. confidence w < confidenceThreshold opts) ws)\<rparr>"
proof (induction ws arbitrary: s b)
  case Nil
  show ?case by simp
next
  case (Cons w ws)
  show ?case
    by (simp add: processWord_boxes Cons.IH)
qed

lemma closeRow_boxes: "closeRow opts (s\<lparr>boxes := b\<rparr>) = closeRow opts s"
  by (simp add: closeRow_def split: option.splits)

lemma processLine_eq:
  "processLine g opts l acc =
     (fst acc @ [rowOfWords g opts (words l)],
      snd acc @ map (boxOf opts) (filter (\<lambda>w. confidence w < confidenceThreshold opts) (words l)))"
proof -
  let ?s0 = "\<lparr>boxes = [], row = [], cellContents = None, cellConfidence = 100,
              currentColumn = None\<rparr>"
  have init: "\<lparr>boxes = snd acc, row = [], cellContents = None, cellConfidence = 100,
              currentColumn = None\<rparr> = ?s0\<lparr>boxes := snd acc\<rparr>"
    by simp
  show ?thesis
    unfolding processLine_def Let_def init wordLoop_boxes rowOfWords_def
    by (simp add: closeRow_boxes)
qed

lemma lineLoop_eq:
  "lineLoop g opts ls acc =
     (fst acc @ map (\<lambda>l. rowOfWords g opts (words l)) ls,
      snd acc @ map (boxOf opts)
                  (filter (\<lambda>w. confidence w < confidenceThreshold opts) (concat (map words ls))))"
proof (induction ls arbitrary: acc)
  case Nil
  show ?case by simp
next
  case (Cons l ls)
  show ?case
    by (simp add: Cons.IH processLine_eq)
qed

lemma processOcrData_table:
  "table (processOcrData irs page opts) =
     map (\<lambda>l. rowOfWords (columnLookup irs page opts) opts (words l)) (lines page)"
  by (simp add: processOcrData_def Let_def lineLoop_eq columnLookup_def)

lemma processOcrData_boxes:
  "lowConfidenceBoxes (processOcrData irs page opts) =
     map (boxOf opts) (filter (\<lambda>w. confidence w < confidenceThreshold opts) (pageWords page))"
  by (simp add: processOcrData_def Let_def lineLoop_eq pageWords_def)

text \<open>The word loop against the runs: from a state whose open cell holds the run \<open>r\<close>,
  the rest of the line closes that cell and lays out the runs that follow.\<close>

lemma layout_Nil: "layout [] [] = []"
  by (simp add: layout_def)

lemma layout_Cons: "layout (k # ks) (c # cs) = replicate k '''' @ c # layout ks cs"
  by (simp add: layout_def)

lemma joinWords_snoc: "r \<noteq> [] \<Longrightarrow> joinWords (r @ [w]) = joinWords r @ '' '' @ word_text w"
  by (induction r rule: joinWords.induct) simp_all

lemma Min_confidence_snoc:
  "r \<noteq> [] \<Longrightarrow> Min (confidence ` set (r @ [w])) = min (Min (confidence ` set r)) (confidence w)"
  by (simp add: min.commute)

lemma cellRunsFrom_not_Nil: "cellRunsFrom g r ws \<noteq> []"
  by (induction ws arbitrary: r) simp_all

lemma hd_hd_cellRunsFrom: "r \<noteq> [] \<Longrightarrow> hd (hd (cellRunsFrom g r ws)) = hd r"
  by (induction ws arbitrary: r) simp_all

lemma wordLoop_runs:
  assumes "r \<noteq> []"
    and "cellContents s = Some (joinWords r)"
    and "cellConfidence s = Min (confidence ` set r)"
    and "currentColumn s = g (x0 (bbox (hd r)))"
  shows "closeRow opts (wordLoop g opts ws s) =
           row s @ cellText opts (hd (cellRunsFrom g r ws))
             # layout (cellGaps g (g (x0 (bbox (hd r)))) (tl (cellRunsFrom g r ws)))
                 (map (cellText opts) (tl (cellRunsFrom g r ws)))"
  using assms
proof (induction ws arbitrary: r s)
  case Nil
  then show ?case
    by (simp add: closeRow_def cellText_def layout_Nil)
next
  case (Cons w ws)
  show ?case
  proof (cases "g (x0 (bbox w)) = g (x0 (bbox (hd r)))")
    case True
    let ?s' = "processWord g opts w s"
    have s': "row ?s' = row s" "cellContents ?s' = Some (joinWords (r @ [w]))"
      "cellConfidence ?s' = Min (confidence ` set (r @ [w]))"
      "currentColumn ?s' = g (x0 (bbox (hd (r @ [w]))))"
      using True Cons.prems
      by (simp_all add: processWord_def Let_def joinWords_snoc min.commute)
    have "closeRow opts (wordLoop g opts ws ?s') =
           row ?s' @ cellText opts (hd (cellRunsFrom g (r @ [w]) ws))
             # layout (cellGaps g (g (x0 (bbox (hd (r @ [w]))))) (tl (cellRunsFrom g (r @ [w]) ws)))
                 (map (cellText opts) (tl (cellRunsFrom g (r @ [w]) ws)))"
      by (rule Cons.IH) (simp_all add: s')
    then show ?thesis
      using True Cons.prems(1) by (simp add: s')
  next
    case False
    let ?s' = "processWord g opts w s"
    let ?R = "cellRunsFrom g [w] ws"
    have s': "row ?s' = row s @ cellText opts r
                # replicate (gapBefore (g (x0 (bbox (hd r)))) (g (x0 (bbox w)))) ''''"
      "cellContents ?s' = Some (joinWords [w])"
      "cellConfidence ?s' = Min (confidence ` set [w])"
      "currentColumn ?s' = g (x0 (bbox (hd [w])))"
      using False Cons.prems
      by (auto simp add: processWord_def Let_def cellText_def gapBefore_def
            pushBlanks_replicate split: option.splits)
    have IH: "closeRow opts (wordLoop g opts ws ?s') =
           row ?s' @ cellText opts (hd ?R)
             # layout (cellGaps g (g (x0 (bbox (hd [w])))) (tl ?R))
                 (map (cellText opts) (tl ?R))"
      by (rule Cons.IH) (simp_all add: s')
    have R: "?R = hd ?R # tl ?R" "hd (hd ?R) = w"
      by (simp_all add: cellRunsFrom_not_Nil hd_hd_cellRunsFrom)
    have "layout (cellGaps g (g (x0 (bbox (hd r)))) ?R) (map (cellText opts) ?R) =
            replicate (gapBefore (g (x0 (bbox (hd r)))) (g (x0 (bbox w)))) ''''
              @ cellText opts (hd ?R)
              # layout (cellGaps g (g (x0 (bbox w))) (tl ?R)) (map (cellText opts) (tl ?R))"
      by (subst (1 2) R(1)) (simp add: layout_Cons R(2))
    then show ?thesis
      using False IH by (simp add: s')
  qed
qed

text \<open>One step of the word loop on a state written out field by field; it evaluates the
  loop on concrete lines.\<close>

lemma processWord_explicit:
  "processWord g opts w
     \<lparr>boxes = b, row = r, cellContents = c, cellConfidence = cf, currentColumn = cur\<rparr> =
   \<lparr>boxes = b @ (if confidence w < confidenceThreshold opts then [boxOf opts w] else []),
    row = (if g (x0 (bbox w)) = cur then r
           else (case c of
                   None \<Rightarrow> r
                 | Some t \<Rightarrow> r @ [if cf < confidenceThreshold opts
                                    then t @ lowConfidenceMarker opts else t])
                @ replicate (gapBefore cur (g (x0 (bbox w)))) ''''),
    cellContents = Some (if g (x0 (bbox w)) = cur
                         then (case c of None \<Rightarrow> word_text w
                               | Some t \<Rightarrow> t @ '' '' @ word_text w)
                         else word_text w),
    cellConfidence = (if g (x0 (bbox w)) = cur then min cf (confidence w) else confidence w),
    currentColumn = g (x0 (bbox w))\<rparr>"
  by (auto simp add: processWord_def Let_def boxOf_def gapBefore_def pushBlanks_replicate
        split: option.splits)

lemma rowOfWords_runs:
  assumes "ws \<noteq> [] \<Longrightarrow> g (x0 (bbox (hd ws))) = None \<Longrightarrow> confidence (hd ws) \<le> 100"
  shows "rowOfWords g opts ws =
           layout (cellGaps g None (cellRuns g ws)) (map (cellText opts) (cellRuns g ws))"
proof (cases ws)
  case Nil
  then show ?thesis
    by (simp add: rowOfWords_def closeRow_def cellRuns_def layout_Nil)
next
  case (Cons w rest)
  let ?s0 = "\<lparr>boxes = [], row = [], cellContents = None, cellConfidence = 100,
              currentColumn = None\<rparr>"
  let ?s1 = "processWord g opts w ?s0"
  let ?R = "cellRunsFrom g [w] rest"
  have w: "g (x0 (bbox w)) = None \<Longrightarrow> confidence w \<le> 100"
    using assms Cons by simp
  have s1: "row ?s1 = replicate (gapBefore None (g (x0 (bbox w)))) ''''"
    "cellContents ?s1 = Some (joinWords [w])"
    "cellConfidence ?s1 = Min (confidence ` set [w])"
    "currentColumn ?s1 = g (x0 (bbox (hd [w])))"
    using w by (auto simp add: processWord_explicit gapBefore_def)
  have run: "closeRow opts (wordLoop g opts rest ?s1) =
           row ?s1 @ cellText opts (hd ?R)
             # layout (cellGaps g (g (x0 (bbox (hd [w])))) (tl ?R))
                 (map (cellText opts) (tl ?R))"
    by (rule wordLoop_runs) (simp_all add: s1)
  have R: "?R = hd ?R # tl ?R" "hd (hd ?R) = w"
    by (simp_all add: cellRunsFrom_not_Nil hd_hd_cellRunsFrom)
  have "layout (cellGaps g None ?R) (map (cellText opts) ?R) =
          replicate (gapBefore None (g (x0 (bbox w)))) ''''
            @ cellText opts (hd ?R)
            # layout (cellGaps g (g (x0 (bbox w))) (tl ?R)) (map (cellText opts) (tl ?R))"
    by (subst (1 2) R(1)) (simp add: layout_Cons R(2))
  then show ?thesis
    using run Cons by (simp add: rowOfWords_def cellRuns_def s1)
qed

lemma row_three:
  assumes "g (x0 (bbox w1)) = Some 0" "g (x0 (bbox w2)) = Some 0" "g (x0 (bbox w3)) = Some 2"
  shows "rowOfWords g opts [w1, w2, w3] =
     [word_text w1 @ '' '' @ word_text w2 @
        (if min (confidence w1) (confidence w2) < confidenceThreshold opts
         then lowConfidenceMarker opts else ''''),
      '''',
      word_text w3 @ (if confidence w3 < confidenceThreshold opts
         then lowConfidenceMarker opts else '''')]"
  using assms
  by (simp add: rowOfWords_def processWord_explicit closeRow_def gapBefore_def)

lemma rowOfWords_Nil: "rowOfWords g opts [] = []"
  by (simp add: rowOfWords_def closeRow_def)

text \<open>The example page, evaluated.\<close>

lemma demo_clusters:
  "clusters (symbolLoop (symbols demoPage) []) 15 =
     [\<lparr>range_start = 0, range_end = 20\<rparr>, \<lparr>range_start = 100, range_end = 110\<rparr>,
      \<lparr>range_start = 200, range_end = 210\<rparr>]"
  by (simp add: demoPage_def clusters_def)

lemma demo_lookup:
  "columnLookup specIntRangeSet demoPage demoOptions (x0 (bbox wordA)) = Some 0"
  "columnLookup specIntRangeSet demoPage demoOptions (x0 (bbox wordB)) = Some 0"
  "columnLookup specIntRangeSet demoPage demoOptions (x0 (bbox wordC)) = Some 2"
  by (simp_all add: columnLookup_def specIntRangeSet_def demoOptions_def demo_clusters
        wordA_def wordB_def wordC_def)

lemma demo_lines: "lines demoPage = [\<lparr>words = [wordA, wordB, wordC]\<rparr>, \<lparr>words = []\<rparr>]"
  by (simp add: demoPage_def)

lemma demo_row:
  "rowOfWords (columnLookup specIntRangeSet demoPage demoOptions) demoOptions
     [wordA, wordB, wordC] = [''a b (?)'', '''', ''c'']"
  by (simp add: row_three demo_lookup) (simp add: demoOptions_def wordA_def wordB_def wordC_def)

lemma demo_table:
  "table (processOcrData specIntRangeSet demoPage demoOptions) = [[''a b (?)'', '''', ''c''], []]"
  unfolding processOcrData_table demo_lines
  by (simp add: demo_row rowOfWords_Nil)

lemma demo_boxes:
  "lowConfidenceBoxes (processOcrData specIntRangeSet demoPage demoOptions)
     = [\<lparr>x0 = 0, y0 = 0, x1 = 10 / 3, y1 = 10\<rparr>]"
  unfolding processOcrData_boxes pageWords_def demo_lines
  by (simp add: demoOptions_def boxOf_def wordA_def wordB_def wordC_def)

text \<open>The runs of a line: they partition its words, none is empty, and the words of a
  run share their column.\<close>

lemma concat_cellRunsFrom: "concat (cellRunsFrom g r ws) = r @ ws"
  by (induction ws arbitrary: r) simp_all

lemma concat_cellRuns: "concat (cellRuns g ws) = ws"
  by (cases ws) (simp_all add: cellRuns_def concat_cellRunsFrom)

lemma cellRunsFrom_nonempty: "r \<noteq> [] \<Longrightarrow> [] \<notin> set (cellRunsFrom g r ws)"
  by (induction ws arbitrary: r) auto

lemma cellRuns_nonempty: "[] \<notin> set (cellRuns g ws)"
  by (cases ws) (simp_all add: cellRuns_def cellRunsFrom_nonempty)

lemma cellRunsFrom_const: "cellRunsFrom (\<lambda>x. c) r ws = [r @ ws]"
  by (induction ws arbitrary: r) simp_all

lemma set_cellRuns_subset: "q \<in> set (cellRuns g ws) \<Longrightarrow> set q \<subseteq> set ws"
proof -
  assume "q \<in> set (cellRuns g ws)"
  then have "set q \<subseteq> set (concat (cellRuns g ws))" by auto
  then show ?thesis by (simp add: concat_cellRuns)
qed

lemma Min_confidence_bounds:
  assumes "q \<noteq> []" and "\<forall>w\<in>set q. lo \<le> confidence w \<and> confidence w \<le> hi"
  shows "lo \<le> Min (confidence ` set q) \<and> Min (confidence ` set q) \<le> hi"
proof -
  have fin: "finite (confidence ` set q)" and ne: "confidence ` set q \<noteq> {}"
    using assms(1) by simp_all
  have "Min (confidence ` set q) \<in> confidence ` set q"
    using fin ne by (rule Min_in)
  with assms(2) show ?thesis by auto
qed

lemma cellRunsFrom_same_column:
  assumes "r \<noteq> []" and "\<forall>w\<in>set r. g (x0 (bbox w)) = k"
  shows "\<forall>q\<in>set (cellRunsFrom g r ws). \<exists>k'. \<forall>w\<in>set q. g (x0 (bbox w)) = k'"
  using assms
proof (induction ws arbitrary: r k)
  case Nil
  then show ?case by auto
next
  case (Cons v ws)
  have hd: "g (x0 (bbox (hd r))) = k"
    using Cons.prems by (cases r) simp_all
  show ?case
  proof (cases "g (x0 (bbox v)) = k")
    case True
    have "\<forall>q\<in>set (cellRunsFrom g (r @ [v]) ws). \<exists>k'. \<forall>w\<in>set q. g (x0 (bbox w)) = k'"
    proof (rule Cons.IH [of "r @ [v]" k])
      show "r @ [v] \<noteq> []" by simp
      show "\<forall>w\<in>set (r @ [v]). g (x0 (bbox w)) = k"
        using Cons.prems(2) True by auto
    qed
    with True show ?thesis by (simp add: hd)
  next
    case False
    have "\<forall>q\<in>set (cellRunsFrom g [v] ws). \<exists>k'. \<forall>w\<in>set q. g (x0 (bbox w)) = k'"
      by (rule Cons.IH [of "[v]" "g (x0 (bbox v))"]) simp_all
    moreover have "\<exists>k'. \<forall>w\<in>set r. g (x0 (bbox w)) = k'"
      using Cons.prems(2) by blast
    ultimately show ?thesis
      using False by (simp add: hd)
  qed
qed

lemma cellRuns_same_column:
  "\<forall>q\<in>set (cellRuns g ws). \<exists>k. \<forall>w\<in>set q. g (x0 (bbox w)) = k"
proof (cases ws)
  case Nil
  then show ?thesis by (simp add: cellRuns_def)
next
  case (Cons v rest)
  have "\<forall>q\<in>set (cellRunsFrom g [v] rest). \<exists>k'. \<forall>w\<in>set q. g (x0 (bbox w)) = k'"
    by (rule cellRunsFrom_same_column [of "[v]" g "g (x0 (bbox v))"]) simp_all
  with Cons show ?thesis by (simp add: cellRuns_def)
qed


text \<open>A page without symbols gives the cluster set no interval.\<close>

lemma symbolLoop_map:
  "symbolLoop syms acc =
     acc @ map (\<lambda>s. \<lparr>range_start = x0 (symbol_bbox s), range_end = x1 (symbol_bbox s)\<rparr>) syms"
  by (induction syms arbitrary: acc) simp_all

lemma columnLookup_no_symbols:
  "symbols page = [] \<Longrightarrow> columnLookup specIntRangeSet page opts = (\<lambda>x. Some 0)"
  by (rule ext) (simp add: columnLookup_def specIntRangeSet_def clusters_def)

lemma rowOfWords_single_column:
  "ws \<noteq> [] \<Longrightarrow> rowOfWords (\<lambda>x. Some 0) opts ws = [cellText opts ws]"
proof -
  assume ne: "ws \<noteq> []"
  then obtain w rest where ws: "ws = w # rest" by (cases ws) auto
  have "rowOfWords (\<lambda>x. Some 0) opts ws =
          layout (cellGaps (\<lambda>x. Some 0) None (cellRuns (\<lambda>x. Some 0) ws))
            (map (cellText opts) (cellRuns (\<lambda>x. Some 0) ws))"
    by (rule rowOfWords_runs) simp
  also have "cellRuns (\<lambda>x. Some 0) ws = [ws]"
    by (simp add: ws cellRuns_def cellRunsFrom_const)
  finally show ?thesis
    by (simp add: layout_def gapBefore_def)
qed

lemma bare_table: "table (processOcrData specIntRangeSet barePage demoOptions) = [[''a (?)'']]"
proof -
  have s: "symbols barePage = []" and l: "lines barePage = [\<lparr>words = [wordA]\<rparr>]"
    by (simp_all add: barePage_def)
  have g: "columnLookup specIntRangeSet barePage demoOptions = (\<lambda>x. Some 0)"
    using s by (rule columnLookup_no_symbols)
  have "rowOfWords (\<lambda>x. Some 0) demoOptions [wordA] = [''a (?)'']"
    by (simp add: rowOfWords_single_column cellText_def) (simp add: wordA_def demoOptions_def)
  then show ?thesis
    by (simp add: processOcrData_table g l)
qed

text \<open>The text that the rendering loops build, for a delimiter of one code unit.\<close>

lemma cellLoop_fst:
  "fst (cellLoop delim r st) = fst st @ concat (map (\<lambda>c. c @ delim) r)"
  by (induction r arbitrary: st) simp_all

lemma butlast_cells:
  "r \<noteq> [] \<Longrightarrow> butlast (concat (map (\<lambda>c. c @ [d]) r)) = joinCells [d] r"
proof (induction r rule: induct_list012)
  case 1
  then show ?case by simp
next
  case (2 c)
  show ?case by simp
next
  case (3 c e r)
  then show ?case by (simp add: butlast_append)
qed

lemma renderRow_fst:
  "fst (renderRow [d] r st) = fst st @ joinCells [d] r @ [CHR 0x0A]"
proof (cases r)
  case Nil
  then show ?thesis by (simp add: renderRow_def)
next
  case (Cons c cs)
  then have ne: "r \<noteq> []" by simp
  then have "concat (map (\<lambda>c. c @ [d]) r) \<noteq> []"
    by (cases r) simp_all
  then show ?thesis
    using ne butlast_cells [OF ne, of d]
    by (cases r) (simp_all add: renderRow_def Let_def cellLoop_fst butlast_append)
qed

lemma rowLoop_fst:
  "fst (rowLoop [d] tbl st) = fst st @ concat (map (\<lambda>r. joinCells [d] r @ [CHR 0x0A]) tbl)"
  by (induction tbl arbitrary: st) (simp_all add: renderRow_fst)

section \<open>The low-confidence boxes\<close>

text \<open>
  C4. The number of low-confidence boxes is the number of words of the page, over all
  its lines, whose confidence is strictly below the threshold. The count holds for every
  cluster set, that is, however the words are merged into cells.
\<close>

theorem low_confidence_box_count:
  "length (lowConfidenceBoxes (processOcrData newIntRangeSet page opts)) =
     length (filter (\<lambda>w. confidence w < confidenceThreshold opts)
               (concat (map words (lines page))))"
  by (simp add: processOcrData_boxes pageWords_def)

text \<open>
  C5. Every low-confidence box is the bounding box of a word of the page that has low
  confidence, with each of \<open>x0\<close>, \<open>y0\<close>, \<open>x1\<close>, \<open>y1\<close> divided by the scale; multiplied
  by the scale again, it is the word's box. The scale is not zero (in JavaScript a division
  by zero gives an infinity or NaN, which the reals do not have).
\<close>

theorem low_confidence_box_coordinates:
  assumes "scale opts \<noteq> 0"
    and "b \<in> set (lowConfidenceBoxes (processOcrData newIntRangeSet page opts))"
  shows "\<exists>w \<in> set (pageWords page).
           confidence w < confidenceThreshold opts \<and>
           b = \<lparr>x0 = x0 (bbox w) / scale opts, y0 = y0 (bbox w) / scale opts,
                x1 = x1 (bbox w) / scale opts, y1 = y1 (bbox w) / scale opts\<rparr> \<and>
           x0 b * scale opts = x0 (bbox w) \<and> y0 b * scale opts = y0 (bbox w) \<and>
           x1 b * scale opts = x1 (bbox w) \<and> y1 b * scale opts = y1 (bbox w)"
proof -
  from assms(2) obtain w where w: "w \<in> set (pageWords page)"
      "confidence w < confidenceThreshold opts" "b = boxOf opts w"
    by (auto simp add: processOcrData_boxes)
  from w(3) assms(1)
  have "b = \<lparr>x0 = x0 (bbox w) / scale opts, y0 = y0 (bbox w) / scale opts,
             x1 = x1 (bbox w) / scale opts, y1 = y1 (bbox w) / scale opts\<rparr> \<and>
        x0 b * scale opts = x0 (bbox w) \<and> y0 b * scale opts = y0 (bbox w) \<and>
        x1 b * scale opts = x1 (bbox w) \<and> y1 b * scale opts = y1 (bbox w)"
    by (simp add: boxOf_def)
  with w(1,2) show ?thesis by blast
qed

theorem low_confidence_box_coordinates_witness:
  "scale demoOptions \<noteq> 0 \<and>
   \<lparr>x0 = 0, y0 = 0, x1 = 10 / 3, y1 = 10\<rparr>
     \<in> set (lowConfidenceBoxes (processOcrData specIntRangeSet demoPage demoOptions)) \<and>
   (\<exists>w \<in> set (pageWords demoPage).
      confidence w < confidenceThreshold demoOptions \<and>
      \<lparr>x0 = 0, y0 = 0, x1 = 10 / 3, y1 = 10\<rparr> =
        \<lparr>x0 = x0 (bbox w) / scale demoOptions, y0 = y0 (bbox w) / scale demoOptions,
         x1 = x1 (bbox w) / scale demoOptions, y1 = y1 (bbox w) / scale demoOptions\<rparr>)"
proof -
  have h1: "scale demoOptions \<noteq> 0"
    by (simp add: demoOptions_def)
  have h2: "\<lparr>x0 = 0, y0 = 0, x1 = 10 / 3, y1 = 10\<rparr>
     \<in> set (lowConfidenceBoxes (processOcrData specIntRangeSet demoPage demoOptions))"
    by (simp add: demo_boxes)
  from low_confidence_box_coordinates [OF h1 h2] h1 h2 show ?thesis
    by blast
qed

text \<open>
  C9. The low-confidence boxes stand in reading order: the list is the list of the
  page's words, line after line and word after word within a line, restricted to the words
  of low confidence, each replaced by its box. So the i-th box belongs to the i-th
  low-confidence word of that traversal, and the box of an earlier word comes first.
\<close>

theorem low_confidence_boxes_in_reading_order:
  "lowConfidenceBoxes (processOcrData newIntRangeSet page opts) =
     map (boxOf opts)
       (filter (\<lambda>w. confidence w < confidenceThreshold opts)
          (concat (map words (lines page))))"
  by (simp add: processOcrData_boxes pageWords_def)

section \<open>Rows and lines\<close>

text \<open>
  C7. A page without lines gives the empty table; the table has one row for each line,
  the i-th row being the row built from the words of the i-th line; and a line without
  words gives the empty row.
\<close>

theorem one_row_per_line:
  "(lines page = [] \<longrightarrow> table (processOcrData newIntRangeSet page opts) = []) \<and>
   length (table (processOcrData newIntRangeSet page opts)) = length (lines page) \<and>
   (\<forall>i < length (lines page).
      table (processOcrData newIntRangeSet page opts) ! i =
        rowOfWords (columnLookup newIntRangeSet page opts) opts (words (lines page ! i)) \<and>
      (words (lines page ! i) = [] \<longrightarrow>
         table (processOcrData newIntRangeSet page opts) ! i = []))"
  by (simp add: processOcrData_table rowOfWords_Nil)

theorem one_row_per_line_witness:
  "lines (demoPage\<lparr>lines := []\<rparr>) = [] \<and>
   table (processOcrData specIntRangeSet (demoPage\<lparr>lines := []\<rparr>) demoOptions) = [] \<and>
   length (table (processOcrData specIntRangeSet demoPage demoOptions)) = 2 \<and>
   1 < length (lines demoPage) \<and> words (lines demoPage ! 1) = [] \<and>
   table (processOcrData specIntRangeSet demoPage demoOptions) ! 1 = []"
proof -
  have h0: "lines (demoPage\<lparr>lines := []\<rparr>) = []"
    by simp
  have h1: "1 < length (lines demoPage)" and h2: "words (lines demoPage ! 1) = []"
    by (simp_all add: demo_lines)
  from one_row_per_line [of "demoPage\<lparr>lines := []\<rparr>" specIntRangeSet demoOptions] h0
  have e: "table (processOcrData specIntRangeSet (demoPage\<lparr>lines := []\<rparr>) demoOptions) = []"
    by blast
  from one_row_per_line [of demoPage specIntRangeSet demoOptions] h1 h2
  have "length (table (processOcrData specIntRangeSet demoPage demoOptions))
          = length (lines demoPage)"
    and "table (processOcrData specIntRangeSet demoPage demoOptions) ! 1 = []"
    by blast+
  with h0 h1 h2 e show ?thesis
    by (simp add: demo_lines)
qed

text \<open>Once a word has been processed a cell is open.\<close>

lemma cellContents_processWord: "cellContents (processWord g opts w s) \<noteq> None"
  by (simp add: processWord_def Let_def split: option.splits)

lemma cellContents_wordLoop:
  "cellContents s \<noteq> None \<Longrightarrow> cellContents (wordLoop g opts ws s) \<noteq> None"
proof (induction ws arbitrary: s)
  case Nil
  then show ?case by simp
next
  case (Cons w ws)
  have "cellContents (wordLoop g opts ws (processWord g opts w s)) \<noteq> None"
    by (rule Cons.IH) (rule cellContents_processWord)
  then show ?case by simp
qed

lemma closeRow_open: "cellContents s \<noteq> None \<Longrightarrow> closeRow opts s \<noteq> []"
  by (auto simp add: closeRow_def)

lemma rowOfWords_not_Nil: "ws \<noteq> [] \<Longrightarrow> rowOfWords g opts ws \<noteq> []"
  by (cases ws)
    (simp_all add: rowOfWords_def closeRow_open cellContents_wordLoop cellContents_processWord)

text \<open>
  C10. A line with at least one word gives a row with at least one cell, whatever the
  cluster set answers (\<open>None\<close> included): the first word leaves a cell open, later words
  keep one open, and the end of the line pushes it.
\<close>

theorem nonempty_line_nonempty_row:
  assumes "i < length (lines page)" and "words (lines page ! i) \<noteq> []"
  shows "length (table (processOcrData newIntRangeSet page opts) ! i) \<ge> 1"
proof -
  have "table (processOcrData newIntRangeSet page opts) ! i \<noteq> []"
    using assms by (simp add: processOcrData_table rowOfWords_not_Nil)
  then show ?thesis
    by (cases "table (processOcrData newIntRangeSet page opts) ! i") simp_all
qed

theorem nonempty_line_nonempty_row_witness:
  "0 < length (lines demoPage) \<and> words (lines demoPage ! 0) \<noteq> [] \<and>
   length (table (processOcrData specIntRangeSet demoPage demoOptions) ! 0) \<ge> 1"
proof -
  have h1: "0 < length (lines demoPage)" and h2: "words (lines demoPage ! 0) \<noteq> []"
    by (simp_all add: demo_lines)
  from nonempty_line_nonempty_row [OF h1 h2] h1 h2 show ?thesis
    by blast
qed

section \<open>Cells and the marker\<close>

text \<open>
  C3. The words of a line, all with a confidence between 0 and 100, fall into runs
  (\<open>cellRuns\<close>, whose concatenation is the line); the row consists of one cell for each
  run, in order, each after some empty cells. The cell of a run is the joined text of its
  words with the marker appended once exactly when the least confidence of the run is
  strictly below the threshold. With the threshold 0 no cell has the marker appended, and
  with a threshold above 100 every cell of a run has it.
\<close>

theorem marker_iff_low_confidence:
  assumes "\<forall>w\<in>set ws. 0 \<le> confidence w \<and> confidence w \<le> 100"
  shows "concat (cellRuns g ws) = ws \<and>
    rowOfWords g opts ws =
      layout (cellGaps g None (cellRuns g ws))
        (map (\<lambda>r. joinWords r @
                  (if Min (confidence ` set r) < confidenceThreshold opts
                   then lowConfidenceMarker opts else ''''))
           (cellRuns g ws)) \<and>
    (confidenceThreshold opts = 0 \<longrightarrow>
       rowOfWords g opts ws =
         layout (cellGaps g None (cellRuns g ws)) (map joinWords (cellRuns g ws))) \<and>
    (confidenceThreshold opts > 100 \<longrightarrow>
       rowOfWords g opts ws =
         layout (cellGaps g None (cellRuns g ws))
           (map (\<lambda>r. joinWords r @ lowConfidenceMarker opts) (cellRuns g ws)))"
proof -
  have row: "rowOfWords g opts ws =
      layout (cellGaps g None (cellRuns g ws)) (map (cellText opts) (cellRuns g ws))"
    using assms by (intro rowOfWords_runs) simp
  have bounds: "0 \<le> Min (confidence ` set q) \<and> Min (confidence ` set q) \<le> 100"
    if "q \<in> set (cellRuns g ws)" for q
  proof (rule Min_confidence_bounds)
    show "q \<noteq> []" using that cellRuns_nonempty [of g ws] by auto
    show "\<forall>w\<in>set q. 0 \<le> confidence w \<and> confidence w \<le> 100"
      using that assms set_cellRuns_subset [of q g ws] by auto
  qed
  have zero: "map (cellText opts) (cellRuns g ws) = map joinWords (cellRuns g ws)"
    if "confidenceThreshold opts = 0"
  proof (rule map_cong [OF refl])
    fix q assume "q \<in> set (cellRuns g ws)"
    then have "0 \<le> Min (confidence ` set q)" using bounds by blast
    with that show "cellText opts q = joinWords q"
      by (simp add: cellText_def)
  qed
  have high: "map (cellText opts) (cellRuns g ws) =
      map (\<lambda>r. joinWords r @ lowConfidenceMarker opts) (cellRuns g ws)"
    if "confidenceThreshold opts > 100"
  proof (rule map_cong [OF refl])
    fix q assume "q \<in> set (cellRuns g ws)"
    then have "Min (confidence ` set q) \<le> 100" using bounds by blast
    with that show "cellText opts q = joinWords q @ lowConfidenceMarker opts"
      by (simp add: cellText_def)
  qed
  have ct: "cellText opts = (\<lambda>r. joinWords r @
                  (if Min (confidence ` set r) < confidenceThreshold opts
                   then lowConfidenceMarker opts else ''''))"
    by (rule ext) (simp add: cellText_def)
  from row have "rowOfWords g opts ws =
      layout (cellGaps g None (cellRuns g ws))
        (map (\<lambda>r. joinWords r @
                  (if Min (confidence ` set r) < confidenceThreshold opts
                   then lowConfidenceMarker opts else ''''))
           (cellRuns g ws))"
    by (simp only: ct)
  moreover have "confidenceThreshold opts = 0 \<longrightarrow>
       rowOfWords g opts ws =
         layout (cellGaps g None (cellRuns g ws)) (map joinWords (cellRuns g ws))"
  proof
    assume "confidenceThreshold opts = 0"
    then show "rowOfWords g opts ws =
         layout (cellGaps g None (cellRuns g ws)) (map joinWords (cellRuns g ws))"
      by (simp only: row zero)
  qed
  moreover have "confidenceThreshold opts > 100 \<longrightarrow>
       rowOfWords g opts ws =
         layout (cellGaps g None (cellRuns g ws))
           (map (\<lambda>r. joinWords r @ lowConfidenceMarker opts) (cellRuns g ws))"
  proof
    assume "confidenceThreshold opts > 100"
    then show "rowOfWords g opts ws =
         layout (cellGaps g None (cellRuns g ws))
           (map (\<lambda>r. joinWords r @ lowConfidenceMarker opts) (cellRuns g ws))"
      by (simp only: row high)
  qed
  ultimately show ?thesis
    using concat_cellRuns [of g ws] by blast
qed

theorem marker_iff_low_confidence_witness:
  "(0 \<le> confidence wordA \<and> confidence wordA \<le> 100) \<and>
   (0 \<le> confidence wordB \<and> confidence wordB \<le> 100) \<and>
   (0 \<le> confidence wordC \<and> confidence wordC \<le> 100) \<and>
   rowOfWords (columnLookup specIntRangeSet demoPage demoOptions) demoOptions
     [wordA, wordB, wordC] = [''a b (?)'', '''', ''c''] \<and>
   confidenceThreshold (demoOptions\<lparr>confidenceThreshold := 0\<rparr>) = 0 \<and>
   rowOfWords (columnLookup specIntRangeSet demoPage demoOptions)
     (demoOptions\<lparr>confidenceThreshold := 0\<rparr>) [wordA, wordB, wordC] = [''a b'', '''', ''c''] \<and>
   confidenceThreshold (demoOptions\<lparr>confidenceThreshold := 101\<rparr>) > 100 \<and>
   rowOfWords (columnLookup specIntRangeSet demoPage demoOptions)
     (demoOptions\<lparr>confidenceThreshold := 101\<rparr>) [wordA, wordB, wordC]
       = [''a b (?)'', '''', ''c (?)'']"
proof -
  let ?g = "columnLookup specIntRangeSet demoPage demoOptions"
  let ?ws = "[wordA, wordB, wordC]"
  have conf: "confidence wordA = 50" "confidence wordB = 95" "confidence wordC = 95"
    by (simp_all add: wordA_def wordB_def wordC_def)
  have hyp: "\<forall>w\<in>set ?ws. 0 \<le> confidence w \<and> confidence w \<le> 100"
    by (simp add: conf)
  have runs: "cellRuns ?g ?ws = [[wordA, wordB], [wordC]]"
    by (simp add: cellRuns_def demo_lookup)
  have texts: "word_text wordA = ''a''" "word_text wordB = ''b''" "word_text wordC = ''c''"
    by (simp_all add: wordA_def wordB_def wordC_def)
  have opts: "confidenceThreshold demoOptions = 90" "lowConfidenceMarker demoOptions = '' (?)''"
    by (simp_all add: demoOptions_def)
  have t0: "confidenceThreshold (demoOptions\<lparr>confidenceThreshold := 0\<rparr>) = 0"
    and t101: "confidenceThreshold (demoOptions\<lparr>confidenceThreshold := 101\<rparr>) > 100"
    by simp_all
  from marker_iff_low_confidence [OF hyp, of ?g demoOptions]
  have "rowOfWords ?g demoOptions ?ws =
      layout (cellGaps ?g None (cellRuns ?g ?ws))
        (map (\<lambda>r. joinWords r @
                  (if Min (confidence ` set r) < confidenceThreshold demoOptions
                   then lowConfidenceMarker demoOptions else ''''))
           (cellRuns ?g ?ws))"
    by blast
  then have r1: "rowOfWords ?g demoOptions ?ws = [''a b (?)'', '''', ''c'']"
    by (simp add: runs demo_lookup gapBefore_def layout_def conf texts opts)
  from marker_iff_low_confidence [OF hyp, of ?g "demoOptions\<lparr>confidenceThreshold := 0\<rparr>"] t0
  have "rowOfWords ?g (demoOptions\<lparr>confidenceThreshold := 0\<rparr>) ?ws =
         layout (cellGaps ?g None (cellRuns ?g ?ws)) (map joinWords (cellRuns ?g ?ws))"
    by blast
  then have r2: "rowOfWords ?g (demoOptions\<lparr>confidenceThreshold := 0\<rparr>) ?ws
                   = [''a b'', '''', ''c'']"
    by (simp add: runs demo_lookup gapBefore_def layout_def texts)
  from marker_iff_low_confidence [OF hyp, of ?g "demoOptions\<lparr>confidenceThreshold := 101\<rparr>"] t101
  have "rowOfWords ?g (demoOptions\<lparr>confidenceThreshold := 101\<rparr>) ?ws =
         layout (cellGaps ?g None (cellRuns ?g ?ws))
           (map (\<lambda>r. joinWords r @ lowConfidenceMarker (demoOptions\<lparr>confidenceThreshold := 101\<rparr>))
              (cellRuns ?g ?ws))"
    by blast
  then have r3: "rowOfWords ?g (demoOptions\<lparr>confidenceThreshold := 101\<rparr>) ?ws
                   = [''a b (?)'', '''', ''c (?)'']"
    by (simp add: runs demo_lookup gapBefore_def layout_def texts opts)
  from r1 r2 r3 t0 t101 show ?thesis
    by (simp add: conf)
qed

section \<open>Column changes\<close>

text \<open>
  C1 (as amended). When the lookup of a word gives a column \<open>col\<close> other than the current
  one, the open cell (if any) is finalized and pushed, then \<open>col - currentColumn - 1\<close>
  empty cells are pushed (none when that number is not positive; a current column of
  \<open>None\<close> counts as 0), and the word opens a new cell. A line of three words with the
  columns 0, 0 and 2 gives exactly three cells: the texts of the first two words joined by
  a space, the empty string, and the text of the third word, where each of the two text
  cells is followed by the marker when the least confidence of its words is below the
  threshold.
\<close>

theorem column_change_and_skipped_columns:
  "(g (x0 (bbox w)) = Some col \<and> currentColumn s \<noteq> Some col \<longrightarrow>
      row (processWord g opts w s) =
        row s
        @ (case cellContents s of
             None \<Rightarrow> []
           | Some t \<Rightarrow> [if cellConfidence s < confidenceThreshold opts
                        then t @ lowConfidenceMarker opts else t])
        @ replicate (nat (col - (case currentColumn s of None \<Rightarrow> 0 | Some k \<Rightarrow> k) - 1)) ''''
      \<and> cellContents (processWord g opts w s) = Some (word_text w)
      \<and> cellConfidence (processWord g opts w s) = confidence w
      \<and> currentColumn (processWord g opts w s) = Some col) \<and>
   (i < length (lines page) \<and> words (lines page ! i) = [w1, w2, w3]
      \<and> columnLookup newIntRangeSet page opts (x0 (bbox w1)) = Some 0
      \<and> columnLookup newIntRangeSet page opts (x0 (bbox w2)) = Some 0
      \<and> columnLookup newIntRangeSet page opts (x0 (bbox w3)) = Some 2 \<longrightarrow>
      table (processOcrData newIntRangeSet page opts) ! i =
        [word_text w1 @ '' '' @ word_text w2 @
           (if min (confidence w1) (confidence w2) < confidenceThreshold opts
            then lowConfidenceMarker opts else ''''),
         '''',
         word_text w3 @
           (if confidence w3 < confidenceThreshold opts
            then lowConfidenceMarker opts else '''')])"
proof (intro conjI impI)
  assume a: "g (x0 (bbox w)) = Some col \<and> currentColumn s \<noteq> Some col"
  then have ne: "Some col \<noteq> currentColumn s" by auto
  show "row (processWord g opts w s) =
        row s
        @ (case cellContents s of
             None \<Rightarrow> []
           | Some t \<Rightarrow> [if cellConfidence s < confidenceThreshold opts
                        then t @ lowConfidenceMarker opts else t])
        @ replicate (nat (col - (case currentColumn s of None \<Rightarrow> 0 | Some k \<Rightarrow> k) - 1)) ''''"
    using a ne by (simp add: processWord_def Let_def pushBlanks_replicate split: option.splits)
  show "cellContents (processWord g opts w s) = Some (word_text w)"
    using a ne by (simp add: processWord_def Let_def)
  show "cellConfidence (processWord g opts w s) = confidence w"
    using a ne by (simp add: processWord_def Let_def)
  show "currentColumn (processWord g opts w s) = Some col"
    using a ne by (simp add: processWord_def Let_def)
next
  assume a: "i < length (lines page) \<and> words (lines page ! i) = [w1, w2, w3]
      \<and> columnLookup newIntRangeSet page opts (x0 (bbox w1)) = Some 0
      \<and> columnLookup newIntRangeSet page opts (x0 (bbox w2)) = Some 0
      \<and> columnLookup newIntRangeSet page opts (x0 (bbox w3)) = Some 2"
  then have "table (processOcrData newIntRangeSet page opts) ! i =
      rowOfWords (columnLookup newIntRangeSet page opts) opts [w1, w2, w3]"
    by (simp add: processOcrData_table)
  also have "\<dots> = [word_text w1 @ '' '' @ word_text w2 @
           (if min (confidence w1) (confidence w2) < confidenceThreshold opts
            then lowConfidenceMarker opts else ''''),
         '''',
         word_text w3 @
           (if confidence w3 < confidenceThreshold opts
            then lowConfidenceMarker opts else '''')]"
    using a by (intro row_three) simp_all
  finally show "table (processOcrData newIntRangeSet page opts) ! i =
        [word_text w1 @ '' '' @ word_text w2 @
           (if min (confidence w1) (confidence w2) < confidenceThreshold opts
            then lowConfidenceMarker opts else ''''),
         '''',
         word_text w3 @
           (if confidence w3 < confidenceThreshold opts
            then lowConfidenceMarker opts else '''')]" .
qed

theorem column_change_and_skipped_columns_witness:
  "columnLookup specIntRangeSet demoPage demoOptions (x0 (bbox wordC)) = Some 2 \<and>
   currentColumn openCellAB \<noteq> Some 2 \<and>
   row (processWord (columnLookup specIntRangeSet demoPage demoOptions) demoOptions wordC
          openCellAB) = [''a b (?)'', ''''] \<and>
   0 < length (lines demoPage) \<and> words (lines demoPage ! 0) = [wordA, wordB, wordC] \<and>
   columnLookup specIntRangeSet demoPage demoOptions (x0 (bbox wordA)) = Some 0 \<and>
   columnLookup specIntRangeSet demoPage demoOptions (x0 (bbox wordB)) = Some 0 \<and>
   table (processOcrData specIntRangeSet demoPage demoOptions) ! 0 = [''a b (?)'', '''', ''c'']"
proof -
  have h1: "columnLookup specIntRangeSet demoPage demoOptions (x0 (bbox wordC)) = Some 2"
    and h2: "currentColumn openCellAB \<noteq> Some 2"
    and h3: "0 < length (lines demoPage)"
    and h4: "words (lines demoPage ! 0) = [wordA, wordB, wordC]"
    and h5: "columnLookup specIntRangeSet demoPage demoOptions (x0 (bbox wordA)) = Some 0"
    and h6: "columnLookup specIntRangeSet demoPage demoOptions (x0 (bbox wordB)) = Some 0"
    by (simp_all add: demo_lookup demo_lines openCellAB_def)
  note inst = column_change_and_skipped_columns
    [of "columnLookup specIntRangeSet demoPage demoOptions" wordC 2 openCellAB demoOptions
        0 demoPage wordA wordB wordC specIntRangeSet]
  from inst h1 h2
  have "row (processWord (columnLookup specIntRangeSet demoPage demoOptions) demoOptions wordC
          openCellAB) =
        row openCellAB
        @ (case cellContents openCellAB of
             None \<Rightarrow> []
           | Some t \<Rightarrow> [if cellConfidence openCellAB < confidenceThreshold demoOptions
                        then t @ lowConfidenceMarker demoOptions else t])
        @ replicate (nat (2 - (case currentColumn openCellAB of None \<Rightarrow> 0 | Some k \<Rightarrow> k) - 1)) ''''"
    by blast
  then have r1: "row (processWord (columnLookup specIntRangeSet demoPage demoOptions)
                   demoOptions wordC openCellAB) = [''a b (?)'', '''']"
    by (simp add: openCellAB_def demoOptions_def)
  from inst h1 h3 h4 h5 h6
  have "table (processOcrData specIntRangeSet demoPage demoOptions) ! 0 =
        [word_text wordA @ '' '' @ word_text wordB @
           (if min (confidence wordA) (confidence wordB) < confidenceThreshold demoOptions
            then lowConfidenceMarker demoOptions else ''''),
         '''',
         word_text wordC @
           (if confidence wordC < confidenceThreshold demoOptions
            then lowConfidenceMarker demoOptions else '''')]"
    by blast
  then have r2: "table (processOcrData specIntRangeSet demoPage demoOptions) ! 0
                   = [''a b (?)'', '''', ''c'']"
    by (simp add: wordA_def wordB_def wordC_def demoOptions_def)
  from h1 h2 h3 h4 h5 h6 r1 r2 show ?thesis by blast
qed

text \<open>
  The claim as first stated gives the cells without the marker. On the example page the
  first word has confidence 50 under the threshold 90, and the first cell is
  \<open>''a b (?)''\<close>, not \<open>''a b''\<close>.
\<close>

theorem three_cells_counterexample:
  "words (lines demoPage ! 0) = [wordA, wordB, wordC] \<and>
   columnLookup specIntRangeSet demoPage demoOptions (x0 (bbox wordA)) = Some 0 \<and>
   columnLookup specIntRangeSet demoPage demoOptions (x0 (bbox wordB)) = Some 0 \<and>
   columnLookup specIntRangeSet demoPage demoOptions (x0 (bbox wordC)) = Some 2 \<and>
   table (processOcrData specIntRangeSet demoPage demoOptions) ! 0 = [''a b (?)'', '''', ''c''] \<and>
   table (processOcrData specIntRangeSet demoPage demoOptions) ! 0
     \<noteq> [word_text wordA @ '' '' @ word_text wordB, '''', word_text wordC]"
proof -
  have "[''a b (?)'', '''', ''c'']
          \<noteq> [word_text wordA @ '' '' @ word_text wordB, '''', word_text wordC]"
    by (simp add: wordA_def wordB_def)
  then show ?thesis
    by (simp add: demo_lookup demo_lines demo_table)
qed

section \<open>A page without symbols\<close>

text \<open>
  The row of a line does not depend on whether a cluster set without clusters answers
  column 0 or \<^verbatim>\<open>null\<close> to every lookup: with \<open>None\<close> throughout (and a first word of
  confidence at most 100) the words are merged into the same single cell.
\<close>

lemma rowOfWords_all_null:
  assumes "ws \<noteq> []" and "confidence (hd ws) \<le> 100"
  shows "rowOfWords (\<lambda>x. None) opts ws = [cellText opts ws]"
proof -
  from assms(1) obtain w rest where ws: "ws = w # rest" by (cases ws) auto
  have "rowOfWords (\<lambda>x. None) opts ws =
          layout (cellGaps (\<lambda>x. None) None (cellRuns (\<lambda>x. None) ws))
            (map (cellText opts) (cellRuns (\<lambda>x. None) ws))"
    using assms(2) by (intro rowOfWords_runs) simp
  also have "cellRuns (\<lambda>x. None) ws = [ws]"
    by (simp add: ws cellRuns_def cellRunsFrom_const)
  finally show ?thesis
    by (simp add: layout_def gapBefore_def)
qed

text \<open>
  C6 (as amended), with the cluster set of the specification. \<open>processOcrData\<close> has no
  \<^verbatim>\<open>throw\<close> and reads its arrays within their bounds, so the embedding has no error
  value and returns a table for every page. When the page has no symbols, every lookup
  answers column 0, and the words of each line with words are merged into one cell: their
  texts joined by spaces, followed by the marker when the least confidence among them is
  below the threshold. A page without symbols whose one line has one word gives one row
  with one cell, the text of the word, followed by the marker when the confidence of the
  word is below the threshold.
\<close>

theorem no_symbols_single_column:
  assumes "symbols page = []"
  shows "(\<forall>x. columnLookup specIntRangeSet page opts x = Some 0) \<and>
    table (processOcrData specIntRangeSet page opts) =
      map (\<lambda>l. if words l = [] then []
               else [joinWords (words l) @
                       (if Min (confidence ` set (words l)) < confidenceThreshold opts
                        then lowConfidenceMarker opts else '''')])
        (lines page) \<and>
    (\<forall>w. lines page = [\<lparr>words = [w]\<rparr>] \<longrightarrow>
       table (processOcrData specIntRangeSet page opts) =
         [[word_text w @ (if confidence w < confidenceThreshold opts
                          then lowConfidenceMarker opts else '''')]])"
proof -
  have g: "columnLookup specIntRangeSet page opts = (\<lambda>x. Some 0)"
    using assms by (rule columnLookup_no_symbols)
  have r: "rowOfWords (\<lambda>x. Some 0) opts (words l) =
             (if words l = [] then []
              else [joinWords (words l) @
                       (if Min (confidence ` set (words l)) < confidenceThreshold opts
                        then lowConfidenceMarker opts else '''')])" for l :: Line
    by (simp add: rowOfWords_Nil rowOfWords_single_column cellText_def)
  have t: "table (processOcrData specIntRangeSet page opts) =
      map (\<lambda>l. if words l = [] then []
               else [joinWords (words l) @
                       (if Min (confidence ` set (words l)) < confidenceThreshold opts
                        then lowConfidenceMarker opts else '''')])
        (lines page)"
    by (simp only: processOcrData_table g r)
  have one: "table (processOcrData specIntRangeSet page opts) =
         [[word_text w @ (if confidence w < confidenceThreshold opts
                          then lowConfidenceMarker opts else '''')]]"
    if "lines page = [\<lparr>words = [w]\<rparr>]" for w
    by (simp add: t that)
  from g t one show ?thesis by simp
qed

theorem no_symbols_single_column_witness:
  "symbols barePage = [] \<and> lines barePage = [\<lparr>words = [wordA]\<rparr>] \<and>
   columnLookup specIntRangeSet barePage demoOptions 0 = Some 0 \<and>
   table (processOcrData specIntRangeSet barePage demoOptions) = [[''a (?)'']]"
proof -
  have s: "symbols barePage = []" and l: "lines barePage = [\<lparr>words = [wordA]\<rparr>]"
    by (simp_all add: barePage_def)
  from no_symbols_single_column [OF s, of demoOptions] l
  have "columnLookup specIntRangeSet barePage demoOptions 0 = Some 0"
    and "table (processOcrData specIntRangeSet barePage demoOptions) =
         [[word_text wordA @ (if confidence wordA < confidenceThreshold demoOptions
                          then lowConfidenceMarker demoOptions else '''')]]"
    by blast+
  then show ?thesis
    using s l by (simp add: wordA_def demoOptions_def)
qed

text \<open>
  The claim as first stated makes the single cell equal to the text of the word. The word
  of \<open>barePage\<close> has confidence 50 under the threshold 90: the cell is \<open>''a (?)''\<close>.
\<close>

theorem single_word_cell_counterexample:
  "symbols barePage = [] \<and> lines barePage = [\<lparr>words = [wordA]\<rparr>] \<and>
   table (processOcrData specIntRangeSet barePage demoOptions) = [[''a (?)'']] \<and>
   table (processOcrData specIntRangeSet barePage demoOptions) \<noteq> [[word_text wordA]]"
  by (simp add: bare_table) (simp add: barePage_def wordA_def)

section \<open>Rendering the table as text\<close>

text \<open>
  With a delimiter of one code unit (the form offers tab and comma) the text is, row after
  row, the cells joined by the delimiter and a line break.
\<close>

lemma renderText_single_character:
  "renderText tbl [d] = concat (map (\<lambda>r. joinCells [d] r @ [CHR 0x0A]) tbl)"
  by (simp add: renderText_def rowLoop_fst)

text \<open>
  C8. For every table and every delimiter of one code unit, and so for the tab and the
  comma, which are the delimiters that the program passes to the rendering, the text is
  row after row the cells of the row joined by the delimiter, with no delimiter after
  the last cell, and a line break. A row without cells gives just a line break.
\<close>

theorem rendered_text_of_table:
  "(length delim = 1 \<longrightarrow>
      renderText tbl delim = concat (map (\<lambda>r. joinCells delim r @ [CHR 0x0A]) tbl)) \<and>
   renderText tbl (formDelimiter btnTabChecked) =
     concat (map (\<lambda>r. joinCells (formDelimiter btnTabChecked) r @ [CHR 0x0A]) tbl) \<and>
   renderText [[]] delim = [CHR 0x0A]"
proof (intro conjI impI)
  assume "length delim = 1"
  then obtain d where "delim = [d]"
    by (cases delim) simp_all
  then show "renderText tbl delim = concat (map (\<lambda>r. joinCells delim r @ [CHR 0x0A]) tbl)"
    by (simp add: renderText_single_character)
next
  show "renderText tbl (formDelimiter btnTabChecked) =
     concat (map (\<lambda>r. joinCells (formDelimiter btnTabChecked) r @ [CHR 0x0A]) tbl)"
    by (simp add: formDelimiter_def renderText_single_character)
next
  show "renderText [[]] delim = [CHR 0x0A]"
    by (simp add: renderText_def renderRow_def)
qed

theorem rendered_text_of_table_witness:
  "length (formDelimiter True) = 1 \<and>
   renderText [[''a'', ''b''], [], [''c'']] (formDelimiter True) =
     ''a'' @ [CHR 0x09] @ ''b'' @ [CHR 0x0A] @ [CHR 0x0A] @ ''c'' @ [CHR 0x0A] \<and>
   renderText [[''a'', ''b''], [], [''c'']] (formDelimiter False) =
     ''a,b'' @ [CHR 0x0A] @ [CHR 0x0A] @ ''c'' @ [CHR 0x0A]"
proof -
  have h: "length (formDelimiter True) = 1"
    by (simp add: formDelimiter_def)
  from rendered_text_of_table [of "formDelimiter True" "[[''a'', ''b''], [], [''c'']]" True] h
  have "renderText [[''a'', ''b''], [], [''c'']] (formDelimiter True) =
          concat (map (\<lambda>r. joinCells (formDelimiter True) r @ [CHR 0x0A])
                    [[''a'', ''b''], [], [''c'']])"
    by blast
  moreover from rendered_text_of_table [of "formDelimiter True" "[[''a'', ''b''], [], [''c'']]" False]
  have "renderText [[''a'', ''b''], [], [''c'']] (formDelimiter False) =
          concat (map (\<lambda>r. joinCells (formDelimiter False) r @ [CHR 0x0A])
                    [[''a'', ''b''], [], [''c'']])"
    by blast
  ultimately show ?thesis
    using h by (simp add: formDelimiter_def)
qed

text \<open>
  The trailing delimiter is removed by \<^verbatim>\<open>text.slice(0, -1)\<close>, one code unit. A longer
  delimiter, which the form cannot produce, would keep all but its last code unit at the
  end of a row.
\<close>

lemma renderText_two_character_delimiter:
  "renderText [[''a'', ''b'']] '', '' = ''a, b,'' @ [CHR 0x0A] \<and>
   renderText [[''a'', ''b'']] '', '' \<noteq> joinCells '', '' [''a'', ''b''] @ [CHR 0x0A]"
  by (simp add: renderText_def renderRow_def)

section \<open>Lookups with the cluster set of the specification\<close>

text \<open>The two examples of section 8 of the specification, on the modelled cluster set.\<close>

lemma spec_merge_example:
  "clusters [\<lparr>range_start = 0, range_end = 10\<rparr>, \<lparr>range_start = 12, range_end = 20\<rparr>,
             \<lparr>range_start = 50, range_end = 60\<rparr>] 5
     = [\<lparr>range_start = 0, range_end = 20\<rparr>, \<lparr>range_start = 50, range_end = 60\<rparr>]"
  by (simp add: clusters_def)

lemma spec_lookup_example:
  "indexOf [\<lparr>range_start = 0, range_end = 20\<rparr>, \<lparr>range_start = 50, range_end = 60\<rparr>] 15 = 0"
  "indexOf [\<lparr>range_start = 0, range_end = 20\<rparr>, \<lparr>range_start = 50, range_end = 60\<rparr>] 55 = 1"
  "indexOf [\<lparr>range_start = 0, range_end = 20\<rparr>, \<lparr>range_start = 50, range_end = 60\<rparr>] 30 = 0"
  by simp_all

text \<open>The clusters keep the order of the sorted starts, and the start of every well-formed
  interval lies in one of them; the scan of \<open>indexOf\<close> then finds a cluster that contains
  the point.\<close>

lemma coalesce_not_Nil: "coalesce thr cur is \<noteq> []"
  by (induction "is" arbitrary: cur) simp_all

lemma indexOf_less: "cs \<noteq> [] \<Longrightarrow> indexOf cs p < length cs"
  by (induction cs p rule: indexOf.induct) simp_all

lemma coalesce_starts:
  "range_start ` set (coalesce thr cur is) \<subseteq> range_start ` set (cur # is)"
proof (induction "is" arbitrary: cur)
  case Nil
  show ?case by simp
next
  case (Cons i rest)
  show ?case
  proof (cases "range_start i - range_end cur \<le> thr")
    case True
    have "range_start ` set (coalesce thr (cur\<lparr>range_end := max (range_end cur) (range_end i)\<rparr>) rest)
            \<subseteq> range_start ` set (cur\<lparr>range_end := max (range_end cur) (range_end i)\<rparr> # rest)"
      by (rule Cons.IH)
    with True show ?thesis by auto
  next
    case False
    have "range_start ` set (coalesce thr i rest) \<subseteq> range_start ` set (i # rest)"
      by (rule Cons.IH)
    with False show ?thesis by auto
  qed
qed

lemma coalesce_sorted:
  "sorted (map range_start (cur # is)) \<Longrightarrow> sorted (map range_start (coalesce thr cur is))"
proof (induction "is" arbitrary: cur)
  case Nil
  show ?case by simp
next
  case (Cons i rest)
  show ?case
  proof (cases "range_start i - range_end cur \<le> thr")
    case True
    have "sorted (map range_start (coalesce thr (cur\<lparr>range_end := max (range_end cur) (range_end i)\<rparr>) rest))"
      using Cons.prems by (intro Cons.IH) auto
    with True show ?thesis by simp
  next
    case False
    have s: "sorted (map range_start (coalesce thr i rest))"
      using Cons.prems by (intro Cons.IH) simp
    have "\<forall>x\<in>range_start ` set (i # rest). range_start cur \<le> x"
      using Cons.prems by auto
    with coalesce_starts [of thr i rest]
    have "\<forall>x\<in>range_start ` set (coalesce thr i rest). range_start cur \<le> x"
      by blast
    with s False show ?thesis by simp
  qed
qed

lemma coalesce_covers:
  assumes "sorted (map range_start (cur # is))"
    and "(range_start cur \<le> p \<and> p \<le> range_end cur) \<or>
         (\<exists>j\<in>set is. p = range_start j \<and> range_start j \<le> range_end j)"
  shows "\<exists>c\<in>set (coalesce thr cur is). range_start c \<le> p \<and> p \<le> range_end c"
  using assms
proof (induction "is" arbitrary: cur)
  case Nil
  then show ?case by simp
next
  case (Cons i rest)
  from Cons.prems(1) have le: "range_start cur \<le> range_start i"
    and srt: "sorted (map range_start (i # rest))"
    and all: "\<forall>j\<in>set rest. range_start cur \<le> range_start j"
    by auto
  show ?case
  proof (cases "range_start i - range_end cur \<le> thr")
    case True
    let ?cur = "cur\<lparr>range_end := max (range_end cur) (range_end i)\<rparr>"
    have "\<exists>c\<in>set (coalesce thr ?cur rest). range_start c \<le> p \<and> p \<le> range_end c"
    proof (rule Cons.IH)
      show "sorted (map range_start (?cur # rest))"
        using Cons.prems(1) by auto
      show "(range_start ?cur \<le> p \<and> p \<le> range_end ?cur) \<or>
            (\<exists>j\<in>set rest. p = range_start j \<and> range_start j \<le> range_end j)"
        using Cons.prems(2) le by auto
    qed
    with True show ?thesis by simp
  next
    case False
    show ?thesis
    proof (cases "range_start cur \<le> p \<and> p \<le> range_end cur")
      case True
      with False show ?thesis by simp
    next
      case notcur: False
      with Cons.prems(2)
      have "(range_start i \<le> p \<and> p \<le> range_end i) \<or>
            (\<exists>j\<in>set rest. p = range_start j \<and> range_start j \<le> range_end j)"
        by auto
      with srt have "\<exists>c\<in>set (coalesce thr i rest). range_start c \<le> p \<and> p \<le> range_end c"
        by (rule Cons.IH)
      with False show ?thesis by simp
    qed
  qed
qed

lemma indexOf_covers:
  assumes "sorted (map range_start cs)"
    and "\<exists>c\<in>set cs. range_start c \<le> p \<and> p \<le> range_end c"
  shows "indexOf cs p < length cs \<and>
         range_start (cs ! indexOf cs p) \<le> p \<and> p \<le> range_end (cs ! indexOf cs p)"
  using assms
proof (induction cs p rule: indexOf.induct)
  case (1 p)
  then show ?case by simp
next
  case (2 c p)
  then show ?case by simp
next
  case (3 c d rest p)
  from "3.prems"(1) have cd: "range_start c \<le> range_start d"
    and srt: "sorted (map range_start (d # rest))"
    and alld: "\<forall>e\<in>set rest. range_start d \<le> range_start e"
    and allc: "\<forall>e\<in>set (d # rest). range_start c \<le> range_start e"
    by auto
  show ?case
  proof (cases "p \<le> range_end c")
    case True
    from "3.prems"(2) allc have "range_start c \<le> p" by auto
    with True show ?thesis by simp
  next
    case False
    with "3.prems"(2)
    have ex: "\<exists>e\<in>set (d # rest). range_start e \<le> p \<and> p \<le> range_end e"
      by auto
    with alld have dp: "range_start d \<le> p" by auto
    have "indexOf (d # rest) p < length (d # rest) \<and>
         range_start ((d # rest) ! indexOf (d # rest) p) \<le> p \<and>
         p \<le> range_end ((d # rest) ! indexOf (d # rest) p)"
      using False dp srt ex by (intro "3.IH") simp_all
    with False dp show ?thesis by simp
  qed
qed

lemma clusters_sorted: "sorted (map range_start (clusters ivs thr))"
proof (cases "sort_key range_start ivs")
  case Nil
  then show ?thesis by (simp add: clusters_def)
next
  case (Cons i rest)
  have "sorted (map range_start (sort_key range_start ivs))"
    by (rule sorted_sort_key)
  with Cons have "sorted (map range_start (coalesce thr i rest))"
    by (intro coalesce_sorted) simp
  with Cons show ?thesis by (simp add: clusters_def)
qed

lemma clusters_not_Nil: "ivs \<noteq> [] \<Longrightarrow> clusters ivs thr \<noteq> []"
proof -
  assume "ivs \<noteq> []"
  then have "length (sort_key range_start ivs) \<noteq> 0" by simp
  then obtain i rest where "sort_key range_start ivs = i # rest"
    by (cases "sort_key range_start ivs") auto
  then show ?thesis by (simp add: clusters_def coalesce_not_Nil)
qed

lemma clusters_covers:
  assumes "j \<in> set ivs" and "range_start j \<le> range_end j"
  shows "\<exists>c\<in>set (clusters ivs thr). range_start c \<le> range_start j \<and> range_start j \<le> range_end c"
proof (cases "sort_key range_start ivs")
  case Nil
  then have "set (sort_key range_start ivs) = {}" by simp
  with assms(1) show ?thesis by simp
next
  case (Cons i rest)
  have srt: "sorted (map range_start (i # rest))"
    using sorted_sort_key [of range_start ivs] Cons by simp
  have "j \<in> set (i # rest)"
    using assms(1) Cons set_sort [of range_start ivs] by auto
  with assms(2)
  have "(range_start i \<le> range_start j \<and> range_start j \<le> range_end i) \<or>
        (\<exists>k\<in>set rest. range_start j = range_start k \<and> range_start k \<le> range_end k)"
    by auto
  with srt have "\<exists>c\<in>set (coalesce thr i rest).
      range_start c \<le> range_start j \<and> range_start j \<le> range_end c"
    by (rule coalesce_covers)
  with Cons show ?thesis by (simp add: clusters_def)
qed

text \<open>
  C2, with the cluster set of the specification. On a page where the \<open>x0\<close> of every word
  is the \<open>x0\<close> of a symbol, every lookup that the word loop makes answers an index, never
  \<open>None\<close>, so the branch for \<^verbatim>\<open>null\<close> is not taken; the index is below the number of
  clusters; and when the symbols are well formed (\<open>x0 \<le> x1\<close>) the cluster at that index
  contains the coordinate.
\<close>

theorem lookup_resolves_to_cluster:
  assumes "\<forall>w\<in>set (pageWords page). \<exists>s\<in>set (symbols page). x0 (bbox w) = x0 (symbol_bbox s)"
  shows "\<forall>w\<in>set (pageWords page).
    columnLookup specIntRangeSet page opts (x0 (bbox w)) \<noteq> None \<and>
    (\<exists>i < length (clusters (symbolLoop (symbols page) [])
                    (columnThreshold opts * scale opts)).
       columnLookup specIntRangeSet page opts (x0 (bbox w)) = Some (int i) \<and>
       ((\<forall>s\<in>set (symbols page). x0 (symbol_bbox s) \<le> x1 (symbol_bbox s)) \<longrightarrow>
          range_start (clusters (symbolLoop (symbols page) [])
                         (columnThreshold opts * scale opts) ! i) \<le> x0 (bbox w) \<and>
          x0 (bbox w) \<le> range_end (clusters (symbolLoop (symbols page) [])
                                    (columnThreshold opts * scale opts) ! i)))"
proof
  fix w assume w: "w \<in> set (pageWords page)"
  let ?ivs = "symbolLoop (symbols page) []"
  let ?cs = "clusters ?ivs (columnThreshold opts * scale opts)"
  let ?p = "x0 (bbox w)"
  let ?i = "indexOf ?cs ?p"
  from assms w obtain s where s: "s \<in> set (symbols page)" "?p = x0 (symbol_bbox s)"
    by blast
  let ?j = "\<lparr>range_start = x0 (symbol_bbox s), range_end = x1 (symbol_bbox s)\<rparr>"
  have j: "?j \<in> set ?ivs"
    using s(1) by (simp add: symbolLoop_map)
  then have "?ivs \<noteq> []" by auto
  then have "?cs \<noteq> []" by (rule clusters_not_Nil)
  then have valid: "?i < length ?cs" by (rule indexOf_less)
  have look: "columnLookup specIntRangeSet page opts ?p = Some (int ?i)"
    by (simp add: columnLookup_def specIntRangeSet_def)
  have inside: "range_start (?cs ! ?i) \<le> ?p \<and> ?p \<le> range_end (?cs ! ?i)"
    if wf: "\<forall>s\<in>set (symbols page). x0 (symbol_bbox s) \<le> x1 (symbol_bbox s)"
  proof -
    from wf s(1) have "range_start ?j \<le> range_end ?j" by simp
    with j have "\<exists>c\<in>set ?cs. range_start c \<le> range_start ?j \<and> range_start ?j \<le> range_end c"
      by (rule clusters_covers)
    then have "\<exists>c\<in>set ?cs. range_start c \<le> ?p \<and> ?p \<le> range_end c"
      by (simp add: s(2))
    with clusters_sorted [of ?ivs "columnThreshold opts * scale opts"]
    show ?thesis
      using indexOf_covers [of ?cs ?p] by blast
  qed
  from valid look inside
  show "columnLookup specIntRangeSet page opts ?p \<noteq> None \<and>
    (\<exists>i < length ?cs.
       columnLookup specIntRangeSet page opts ?p = Some (int i) \<and>
       ((\<forall>s\<in>set (symbols page). x0 (symbol_bbox s) \<le> x1 (symbol_bbox s)) \<longrightarrow>
          range_start (?cs ! i) \<le> ?p \<and> ?p \<le> range_end (?cs ! i)))"
    by auto
qed

theorem lookup_resolves_to_cluster_witness:
  "wordC \<in> set (pageWords demoPage) \<and>
   x0 (bbox wordC) = x0 (symbol_bbox \<lparr>symbol_bbox = \<lparr>x0 = 200, y0 = 0, x1 = 210, y1 = 30\<rparr>\<rparr>) \<and>
   columnLookup specIntRangeSet demoPage demoOptions (x0 (bbox wordC)) \<noteq> None \<and>
   columnLookup specIntRangeSet demoPage demoOptions (x0 (bbox wordC)) = Some 2 \<and>
   length (clusters (symbolLoop (symbols demoPage) [])
             (columnThreshold demoOptions * scale demoOptions)) = 3"
proof -
  have pre: "\<forall>w\<in>set (pageWords demoPage).
               \<exists>s\<in>set (symbols demoPage). x0 (bbox w) = x0 (symbol_bbox s)"
    by (simp add: pageWords_def demoPage_def wordA_def wordB_def wordC_def)
  have mem: "wordC \<in> set (pageWords demoPage)"
    by (simp add: pageWords_def demo_lines)
  from lookup_resolves_to_cluster [OF pre, of demoOptions] mem
  have "columnLookup specIntRangeSet demoPage demoOptions (x0 (bbox wordC)) \<noteq> None"
    by blast
  moreover have "length (clusters (symbolLoop (symbols demoPage) [])
             (columnThreshold demoOptions * scale demoOptions)) = 3"
    by (simp add: demoOptions_def demo_clusters)
  ultimately show ?thesis
    using mem by (simp add: demo_lookup) (simp add: wordC_def)
qed

end
